theory Spec2Isabelle
  imports Main "HOL-Library.Word" "HOL-Library.Product_Lexorder"
begin

section \<open>Data model\<close>

text \<open>
  A pandas \<open>DataFrame\<close> of the program holds, in each cell, a Python \<open>str\<close>, \<open>None\<close> or the
  float \<open>NaN\<close> (every frame is built with \<open>dtype=str\<close>). A frame is modelled by the list of its
  rows in positional order, each row carrying the ten named columns of the program; a column
  that is absent from the frame is a column of \<open>PyNone\<close> cells. The index labels of the frame
  are taken to be unique, as they are on every frame the program builds (\<open>RangeIndex\<close>,
  \<open>ignore_index=True\<close>, or a selection of such rows). Python strings are lists of characters
  with code points below 256.
\<close>

datatype cell = Str string | PyNone | NaN

record row =
  article_id :: cell
  title :: cell
  published_time_utc :: cell
  author :: cell
  description :: cell
  url :: cell
  image_url :: cell
  source_name :: cell
  source_feed_url :: cell
  fetched_at_utc :: cell

type_synonym frame = "row list"

text \<open>
  A pandas \<open>Timestamp\<close> in UTC is modelled by its civil fields
  (year, month, day, hour, minute, second, nanosecond); instants in UTC are ordered as these
  tuples are ordered lexicographically. \<open>None\<close> of \<open>timestamp option\<close> is \<open>NaT\<close>.
\<close>

type_synonym timestamp = "nat \<times> nat \<times> nat \<times> nat \<times> nat \<times> nat \<times> nat"

type_synonym uuid = "128 word"

text \<open>
  The library functions whose code is not part of the program are parameters of the model:
  \<^item> \<open>uuid5 ns name\<close>: the name-based (SHA-1) UUID of \<open>uuid.uuid5\<close>;
  \<^item> \<open>uuid4 i\<close>: the value returned by the \<open>i\<close>-th call of \<open>uuid.uuid4()\<close> in the run
    (the random tape; the state threaded through the model counts the calls made so far);
  \<^item> \<open>parse_datetime col c\<close>: what \<open>pd.to_datetime(col, errors="coerce", utc=True)\<close> yields
    for a string cell \<open>c\<close> of the column \<open>col\<close> (pandas may choose how to read the cells from
    the column as a whole);
  \<^item> \<open>UUID_ctor\<close>: the constructor \<open>uuid.UUID(hex)\<close>, \<open>None\<close> where it raises;
  \<^item> \<open>utcnow i\<close>: the \<open>i\<close>-th reading of the clock, \<open>datetime.now(timezone.utc)\<close>.
\<close>

record pylib =
  uuid5 :: "uuid \<Rightarrow> string \<Rightarrow> uuid"
  uuid4 :: "nat \<Rightarrow> uuid"
  parse_datetime :: "cell list \<Rightarrow> string \<Rightarrow> timestamp option"
  UUID_ctor :: "string \<Rightarrow> uuid option"
  utcnow :: "nat \<Rightarrow> timestamp"

section \<open>Strings of identifiers and timestamps\<close>

definition hex_char :: "nat \<Rightarrow> char" where
  "hex_char d = ''0123456789abcdef'' ! d"

definition hex32 :: "nat \<Rightarrow> string" where
  "hex32 n = map (\<lambda>i. hex_char (n div 16 ^ (31 - i) mod 16)) [0..<32]"

text \<open>\<open>str(u)\<close> of a \<open>uuid.UUID\<close>: 32 lower-case hex digits grouped 8-4-4-4-12.\<close>

definition str_uuid :: "uuid \<Rightarrow> string" where
  "str_uuid u =
     (let h = hex32 (unat u)
      in take 8 h @ ''-'' @ take 4 (drop 8 h) @ ''-'' @ take 4 (drop 12 h) @ ''-'' @
         take 4 (drop 16 h) @ ''-'' @ drop 20 h)"

definition NAMESPACE_URL :: uuid where
  "NAMESPACE_URL = 0x6ba7b8119dad11d180b400c04fd430c8"

definition digit_char :: "nat \<Rightarrow> char" where
  "digit_char d = ''0123456789'' ! d"

fun dec :: "nat \<Rightarrow> string" where
  "dec n = (if n < 10 then [digit_char n] else dec (n div 10) @ [digit_char (n mod 10)])"

declare dec.simps [simp del]

definition zpad :: "nat \<Rightarrow> string \<Rightarrow> string" where
  "zpad w s = replicate (w - length s) CHR ''0'' @ s"

text \<open>\<open>strftime("%Y-%m-%dT%H:%M:%SZ")\<close>: the format has no sub-second directive.\<close>

fun strftime :: "timestamp \<Rightarrow> string" where
  "strftime (y, mo, d, h, mi, s, ns) =
     zpad 4 (dec y) @ ''-'' @ zpad 2 (dec mo) @ ''-'' @ zpad 2 (dec d) @ ''T'' @
     zpad 2 (dec h) @ '':'' @ zpad 2 (dec mi) @ '':'' @ zpad 2 (dec s) @ ''Z''"

text \<open>The characters \<open>str.strip()\<close> removes (those with \<open>str.isspace\<close>), below code point 256.\<close>

definition is_space :: "char \<Rightarrow> bool" where
  "is_space c = ((of_char c :: nat) \<in> {9, 10, 11, 12, 13, 28, 29, 30, 31, 32, 133, 160})"

text \<open>\<open>x.strip() == ""\<close>\<close>

definition is_blank :: "string \<Rightarrow> bool" where
  "is_blank x = list_all is_space x"

section \<open>General helpers\<close>

text \<open>\<open>s(x)\<close>: \<open>None\<close>/\<open>NaN\<close> become the empty string, a string is itself.\<close>

fun s_safe :: "cell \<Rightarrow> string" where
  "s_safe (Str x) = x"
| "s_safe PyNone = []"
| "s_safe NaN = []"

text \<open>
  \<open>gen_article_id(url)\<close> for \<open>url: Optional[str]\<close>; the \<open>nat\<close> is the number of \<open>uuid4()\<close>
  calls made before and after.
\<close>

definition gen_article_id :: "pylib \<Rightarrow> nat \<Rightarrow> string option \<Rightarrow> string \<times> nat" where
  "gen_article_id L n u =
     (case u of
        None \<Rightarrow> (str_uuid (uuid4 L n), Suc n)
      | Some x \<Rightarrow>
          if x = [] then (str_uuid (uuid4 L n), Suc n)
          else (str_uuid (uuid5 L NAMESPACE_URL x), n))"

section \<open>Normalizer and deduplicator\<close>

text \<open>\<open>df.fillna("").astype(str)\<close>, cell by cell.\<close>

definition fillna_str :: "cell \<Rightarrow> cell" where
  "fillna_str c = Str (s_safe c)"

definition fillna_astype :: "row \<Rightarrow> row" where
  "fillna_astype r =
     \<lparr> article_id = fillna_str (article_id r),
       title = fillna_str (title r),
       published_time_utc = fillna_str (published_time_utc r),
       author = fillna_str (author r),
       description = fillna_str (description r),
       url = fillna_str (url r),
       image_url = fillna_str (image_url r),
       source_name = fillna_str (source_name r),
       source_feed_url = fillna_str (source_feed_url r),
       fetched_at_utc = fillna_str (fetched_at_utc r) \<rparr>"

text \<open>
  The backfill of \<open>normalize_ids\<close>: the rows whose \<open>article_id\<close> is blank after \<open>strip()\<close>
  get, in row order, \<open>gen_article_id(u) if u else str(uuid.uuid4())\<close> of their \<open>url\<close>.
\<close>

fun backfill :: "pylib \<Rightarrow> nat \<Rightarrow> frame \<Rightarrow> frame \<times> nat" where
  "backfill L n [] = ([], n)"
| "backfill L n (r # rs) =
     (if is_blank (s_safe (article_id r)) then
        (let u = s_safe (url r);
             (i, n1) = (if u \<noteq> [] then gen_article_id L n (Some u)
                        else (str_uuid (uuid4 L n), Suc n));
             (rs', n2) = backfill L n1 rs
         in (r\<lparr>article_id := Str i\<rparr> # rs', n2))
      else
        (let (rs', n2) = backfill L n rs in (r # rs', n2)))"

text \<open>
  \<open>normalize_ids(df)\<close>. Adding the absent columns as \<open>""\<close> and selecting the ten columns
  do not show in this representation beyond \<open>fillna\<close>.
\<close>

definition normalize_ids :: "pylib \<Rightarrow> nat \<Rightarrow> frame \<Rightarrow> frame \<times> nat" where
  "normalize_ids L n df =
     (if df = [] then ([], n) else backfill L n (map fillna_astype df))"

text \<open>\<open>df.drop_duplicates(subset=["article_id"], keep="first")\<close>\<close>

fun drop_dups :: "cell list \<Rightarrow> frame \<Rightarrow> frame" where
  "drop_dups seen [] = []"
| "drop_dups seen (r # rs) =
     (if article_id r \<in> set seen then drop_dups seen rs
      else r # drop_dups (article_id r # seen) rs)"

definition drop_duplicates :: "frame \<Rightarrow> frame" where
  "drop_duplicates df = drop_dups [] df"

text \<open>\<open>pd.to_datetime(col, errors="coerce", utc=True)\<close>: a missing cell is \<open>NaT\<close>.\<close>

definition to_datetime :: "pylib \<Rightarrow> cell list \<Rightarrow> timestamp option list" where
  "to_datetime L col =
     map (\<lambda>c. case c of Str x \<Rightarrow> parse_datetime L col x | PyNone \<Rightarrow> None | NaN \<Rightarrow> None) col"

text \<open>
  \<open>sort_values("__sort_key", ascending=False, kind="stable")\<close> with the default
  \<open>na_position="last"\<close>, on the rows paired with their key: pandas sorts the rows that have
  a key by reversing them, sorting stably in ascending order and reversing the result, and
  puts the rows without a key behind them in their original order.
\<close>

definition sort_values_desc :: "('a \<times> 'k::linorder option) list \<Rightarrow> ('a \<times> 'k option) list" where
  "sort_values_desc ps =
     rev (sort_key (\<lambda>p. the (snd p)) (rev (filter (\<lambda>p. snd p \<noteq> None) ps))) @
     filter (\<lambda>p. snd p = None) ps"

text \<open>\<open>dt.dt.strftime(...)\<close> of one key: \<open>NaT\<close> gives \<open>NaN\<close>.\<close>

definition strftime_cell :: "timestamp option \<Rightarrow> cell" where
  "strftime_cell k = (case k of None \<Rightarrow> NaN | Some t \<Rightarrow> Str (strftime t))"

text \<open>
  The rows of \<open>dedupe_df\<close> before the sort, paired with their sort key, and after it.
\<close>

definition keyed_rows :: "pylib \<Rightarrow> nat \<Rightarrow> frame \<Rightarrow> (row \<times> timestamp option) list" where
  "keyed_rows L n df =
     (let df1 = fst (normalize_ids L n df);
          df2 = (if df1 \<noteq> [] then drop_duplicates df1 else df1)
      in zip df2 (to_datetime L (map published_time_utc df2)))"

definition sorted_rows :: "pylib \<Rightarrow> nat \<Rightarrow> frame \<Rightarrow> (row \<times> timestamp option) list" where
  "sorted_rows L n df = sort_values_desc (keyed_rows L n df)"

text \<open>
  \<open>dedupe_df(df)\<close>. The assignment of the re-serialized column aligns on the index, so each
  row receives the string of its own key.
\<close>

definition dedupe_df :: "pylib \<Rightarrow> nat \<Rightarrow> frame \<Rightarrow> frame \<times> nat" where
  "dedupe_df L n df =
     (let n1 = snd (normalize_ids L n df);
          df3 = map (\<lambda>(r, k). r\<lparr>published_time_utc := strftime_cell k\<rparr>) (sorted_rows L n df)
      in normalize_ids L n1 df3)"

section \<open>Merge engine\<close>

text \<open>\<open>merge_new(existing, freshly)\<close> returns \<open>((total, new_ids), n')\<close>.\<close>

definition ids :: "frame \<Rightarrow> cell list" where
  "ids df = map article_id df"

definition merge_new :: "pylib \<Rightarrow> nat \<Rightarrow> frame \<Rightarrow> frame \<Rightarrow> (frame \<times> cell set) \<times> nat" where
  "merge_new L n existing freshly =
     (let (freshly1, n1) = dedupe_df L n freshly;
          (existing1, n2) = dedupe_df L n1 existing
      in if existing1 = [] then ((freshly1, set (ids freshly1)), n2)
         else
           (let existing_ids = set (ids existing1);
                added = filter (\<lambda>r. article_id r \<notin> existing_ids) freshly1;
                (total, n3) = dedupe_df L n2 (existing1 @ added)
            in ((total, set (ids added)), n3)))"

section \<open>Notions used in the statements\<close>

fun is_str :: "cell \<Rightarrow> bool" where
  "is_str (Str x) = True"
| "is_str PyNone = False"
| "is_str NaN = False"

definition cells :: "row \<Rightarrow> cell list" where
  "cells r =
     [article_id r, title r, published_time_utc r, author r, description r, url r,
      image_url r, source_name r, source_feed_url r, fetched_at_utc r]"

text \<open>A normalized row: every cell is a string and the identifier is not blank.\<close>

definition normal_row :: "row \<Rightarrow> bool" where
  "normal_row r = (list_all is_str (cells r) \<and> \<not> is_blank (s_safe (article_id r)))"

text \<open>
  The order in which two sort keys may follow each other in a frame sorted by published time,
  newest first, with the missing times last.
\<close>

fun key_ge :: "'k::linorder option \<Rightarrow> 'k option \<Rightarrow> bool" where
  "key_ge (Some a) (Some b) = (b \<le> a)"
| "key_ge (Some a) None = True"
| "key_ge None (Some b) = False"
| "key_ge None None = True"

text \<open>The string a row carries in \<open>published_time_utc\<close> when \<open>dedupe_df\<close> returns it.\<close>

definition key_str :: "timestamp option \<Rightarrow> string" where
  "key_str k = (case k of None \<Rightarrow> [] | Some t \<Rightarrow> strftime t)"

definition stamped :: "row \<times> timestamp option \<Rightarrow> row" where
  "stamped p = (fst p)\<lparr>published_time_utc := Str (key_str (snd p))\<rparr>"

fun floor_sec :: "timestamp \<Rightarrow> timestamp" where
  "floor_sec (y, mo, d, h, mi, s, ns) = (y, mo, d, h, mi, s, 0)"

text \<open>
  What is assumed of \<open>pd.to_datetime\<close> where a statement is about reading back the strings the
  program wrote: in a column whose cells are all empty or written by \<open>strftime\<close> from a
  timestamp the parser can return, the empty cell is \<open>NaT\<close> and the string of such a timestamp
  is read as that timestamp at whole seconds.
\<close>

definition canonical_cell :: "pylib \<Rightarrow> cell \<Rightarrow> bool" where
  "canonical_cell L c \<longleftrightarrow>
     c = Str [] \<or> (\<exists>col x t. parse_datetime L col x = Some t \<and> c = Str (strftime t))"

definition reads_back :: "pylib \<Rightarrow> bool" where
  "reads_back L \<longleftrightarrow>
     (\<forall>col. (\<forall>c \<in> set col. canonical_cell L c) \<longrightarrow>
        parse_datetime L col [] = None \<and>
        (\<forall>col0 x t. parse_datetime L col0 x = Some t \<longrightarrow>
           parse_datetime L col (strftime t) = Some (floor_sec t)))"

section \<open>An instance of the library\<close>

text \<open>
  A concrete instance of the library parameters, on which the model runs: the timestamp parser
  reads exactly the cells written as \<open>%Y-%m-%dT%H:%M:%SZ\<close> (and yields \<open>NaT\<close> for every other
  cell, the empty one included), the \<open>UUID\<close> constructor reads exactly the strings that are 32
  hex digits once their dashes are removed, the name hash is a polynomial hash standing in
  for SHA-1, and the random tape and the clock are fixed sequences.
\<close>

definition digit_val :: "char \<Rightarrow> nat option" where
  "digit_val c =
     (let k = (of_char c :: nat) in if 48 \<le> k \<and> k \<le> 57 then Some (k - 48) else None)"

fun digits_val :: "string \<Rightarrow> nat \<Rightarrow> nat option" where
  "digits_val [] acc = Some acc"
| "digits_val (c # cs) acc =
     (case digit_val c of None \<Rightarrow> None | Some d \<Rightarrow> digits_val cs (10 * acc + d))"

definition to_datetime_canonical :: "string \<Rightarrow> timestamp option" where
  "to_datetime_canonical x =
     (if length x = 20 \<and> x ! 4 = CHR ''-'' \<and> x ! 7 = CHR ''-'' \<and> x ! 10 = CHR ''T'' \<and>
         x ! 13 = CHR '':'' \<and> x ! 16 = CHR '':'' \<and> x ! 19 = CHR ''Z''
      then
        (case digits_val (take 4 x) 0 of None \<Rightarrow> None | Some y \<Rightarrow>
         case digits_val (take 2 (drop 5 x)) 0 of None \<Rightarrow> None | Some mo \<Rightarrow>
         case digits_val (take 2 (drop 8 x)) 0 of None \<Rightarrow> None | Some d \<Rightarrow>
         case digits_val (take 2 (drop 11 x)) 0 of None \<Rightarrow> None | Some h \<Rightarrow>
         case digits_val (take 2 (drop 14 x)) 0 of None \<Rightarrow> None | Some mi \<Rightarrow>
         case digits_val (take 2 (drop 17 x)) 0 of None \<Rightarrow> None | Some s \<Rightarrow>
           if 1 \<le> mo \<and> mo \<le> 12 \<and> 1 \<le> d \<and> d \<le> 31 \<and> h \<le> 23 \<and> mi \<le> 59 \<and> s \<le> 59
           then Some (y, mo, d, h, mi, s, 0) else None)
      else None)"

definition hex_val :: "char \<Rightarrow> nat option" where
  "hex_val c =
     (let k = (of_char c :: nat)
      in if 48 \<le> k \<and> k \<le> 57 then Some (k - 48)
         else if 97 \<le> k \<and> k \<le> 102 then Some (k - 87)
         else if 65 \<le> k \<and> k \<le> 70 then Some (k - 55)
         else None)"

fun hex_digits_val :: "string \<Rightarrow> nat \<Rightarrow> nat option" where
  "hex_digits_val [] acc = Some acc"
| "hex_digits_val (c # cs) acc =
     (case hex_val c of None \<Rightarrow> None | Some d \<Rightarrow> hex_digits_val cs (16 * acc + d))"

definition UUID_hex :: "string \<Rightarrow> uuid option" where
  "UUID_hex x =
     (let h = filter (\<lambda>c. c \<noteq> CHR ''-'') x
      in if length h \<noteq> 32 then None else map_option of_nat (hex_digits_val h 0))"

definition uuid5_poly :: "uuid \<Rightarrow> string \<Rightarrow> uuid" where
  "uuid5_poly ns name = foldl (\<lambda>h c. h * 1000003 + of_nat (of_char c)) ns name"

definition lib0 :: pylib where
  "lib0 =
     \<lparr> uuid5 = uuid5_poly,
       uuid4 = (\<lambda>i. 0x9f1c2e3a4b5d4c6e8f7a0b1c2d3e4f50 + of_nat i),
       parse_datetime = (\<lambda>col. to_datetime_canonical),
       UUID_ctor = UUID_hex,
       utcnow = (\<lambda>i. (2024, 5, 1, 12, 0, i mod 60, 250000000)) \<rparr>"

section \<open>Example data\<close>

text \<open>
  Rows used to run the model on concrete frames: \<open>article\<close> is a row as a feed or the snapshot
  file provides it (with missing cells), \<open>out\<close> the same row once normalized.
\<close>

definition article :: "string \<Rightarrow> string \<Rightarrow> string \<Rightarrow> row" where
  "article i t p =
     \<lparr> article_id = Str i, title = Str t, published_time_utc = Str p, author = PyNone,
       description = NaN, url = Str [], image_url = Str [], source_name = Str ''S'',
       source_feed_url = Str ''f'', fetched_at_utc = Str [] \<rparr>"

definition out :: "string \<Rightarrow> string \<Rightarrow> string \<Rightarrow> row" where
  "out i t p =
     \<lparr> article_id = Str i, title = Str t, published_time_utc = Str p, author = Str [],
       description = Str [], url = Str [], image_url = Str [], source_name = Str ''S'',
       source_feed_url = Str ''f'', fetched_at_utc = Str [] \<rparr>"

section \<open>Properties\<close>

subsection \<open>Identifiers\<close>

lemma hex_char_inj: "d < 16 \<Longrightarrow> e < 16 \<Longrightarrow> hex_char d = hex_char e \<Longrightarrow> d = e"
proof -
  assume d: "d < 16" and e: "e < 16" and eq: "hex_char d = hex_char e"
  have "distinct ''0123456789abcdef''" by simp
  moreover have "length ''0123456789abcdef'' = 16" by simp
  ultimately show "d = e"
    using d e eq unfolding hex_char_def by (metis nth_eq_iff_index_eq)
qed

lemma digits_determine:
  "(\<forall>j<k. n div 16 ^ j mod 16 = m div 16 ^ j mod 16) \<Longrightarrow> n mod 16 ^ k = m mod 16 ^ k"
  for n m :: nat
proof (induction k)
  case 0
  then show ?case by simp
next
  case (Suc k)
  have a: "n mod 16 ^ Suc k = n mod 16 ^ k + 16 ^ k * (n div 16 ^ k mod 16)" for n :: nat
    unfolding power_Suc2 by (simp add: mod_mult2_eq)
  from Suc show ?case by (simp only: a) simp
qed

lemma take_drop_parts:
  "h = take 8 h @ take 4 (drop 8 h) @ take 4 (drop 12 h) @ take 4 (drop 16 h) @ drop 20 h"
proof -
  have "drop 16 h = take 4 (drop 16 h) @ drop 20 h"
    using append_take_drop_id [of 4 "drop 16 h"] by simp
  moreover have "drop 12 h = take 4 (drop 12 h) @ drop 16 h"
    using append_take_drop_id [of 4 "drop 12 h"] by simp
  moreover have "drop 8 h = take 4 (drop 8 h) @ drop 12 h"
    using append_take_drop_id [of 4 "drop 8 h"] by simp
  moreover have "h = take 8 h @ drop 8 h" by simp
  ultimately show ?thesis by metis
qed

lemma length_hex32 [simp]: "length (hex32 n) = 32"
  by (simp add: hex32_def)

lemma hex32_inj:
  assumes "hex32 n = hex32 m" "n < 16 ^ 32" "m < 16 ^ 32"
  shows "n = m"
proof -
  have "\<forall>j<32. n div 16 ^ j mod 16 = m div 16 ^ j mod 16"
  proof (intro allI impI)
    fix j :: nat assume j: "j < 32"
    from assms(1) have "hex32 n ! (31 - j) = hex32 m ! (31 - j)" by simp
    moreover from j have "[0..<32] ! (31 - j) = 31 - j"
      using nth_upt [of 0 "31 - j" 32] by simp
    ultimately have "hex_char (n div 16 ^ j mod 16) = hex_char (m div 16 ^ j mod 16)"
      using j by (simp add: hex32_def)
    then show "n div 16 ^ j mod 16 = m div 16 ^ j mod 16"
      by (rule hex_char_inj [rotated 2]) simp_all
  qed
  then have "n mod 16 ^ 32 = m mod 16 ^ 32" by (rule digits_determine)
  with assms(2,3) show ?thesis by simp
qed

lemma str_uuid_inj: "str_uuid u = str_uuid v \<Longrightarrow> u = v"
proof -
  assume eq: "str_uuid u = str_uuid v"
  define h where "h = hex32 (unat u)"
  define g where "g = hex32 (unat v)"
  have lh: "length h = 32" and lg: "length g = 32" by (simp_all add: h_def g_def)
  from eq have "take 8 h @ ''-'' @ take 4 (drop 8 h) @ ''-'' @ take 4 (drop 12 h) @ ''-'' @
      take 4 (drop 16 h) @ ''-'' @ drop 20 h =
    take 8 g @ ''-'' @ take 4 (drop 8 g) @ ''-'' @ take 4 (drop 12 g) @ ''-'' @
      take 4 (drop 16 g) @ ''-'' @ drop 20 g"
    by (simp add: str_uuid_def h_def g_def Let_def)
  with lh lg have "take 8 h = take 8 g \<and> take 4 (drop 8 h) = take 4 (drop 8 g) \<and>
      take 4 (drop 12 h) = take 4 (drop 12 g) \<and> take 4 (drop 16 h) = take 4 (drop 16 g) \<and>
      drop 20 h = drop 20 g"
    by simp
  then have "h = g"
    using take_drop_parts [of h] take_drop_parts [of g] by simp
  then have "unat u = unat v"
    unfolding h_def g_def
  proof (rule hex32_inj)
    show "unat u < 16 ^ 32" using unsigned_less [of u] by simp
    show "unat v < 16 ^ 32" using unsigned_less [of v] by simp
  qed
  then show "u = v" by (simp add: word_unat_eq_iff)
qed

lemma str_uuid_not_blank: "\<not> is_blank (str_uuid u)"
  by (simp add: is_blank_def str_uuid_def Let_def is_space_def)

text \<open>
  C9. For a non-empty URL \<open>x\<close>, \<open>gen_article_id\<close> returns the string of the name-based hash of
  the fixed namespace \<open>NAMESPACE_URL\<close> and \<open>x\<close>, draws no random value, and gives the same
  identifier in any other run (any random tape, any number of earlier draws) that uses the
  same hash function. For an absent or empty URL it returns the string of the next random
  draw and advances the tape; a second such call returns the following draw, and the two
  identifiers are equal exactly when the two random draws are equal.
\<close>

theorem gen_article_id_identity:
  "(x \<noteq> [] \<longrightarrow> uuid5 L' = uuid5 L \<longrightarrow>
      gen_article_id L n (Some x) = (str_uuid (uuid5 L NAMESPACE_URL x), n) \<and>
      fst (gen_article_id L' n' (Some x)) = fst (gen_article_id L n (Some x))) \<and>
   (u = None \<or> u = Some [] \<longrightarrow>
      gen_article_id L n u = (str_uuid (uuid4 L n), Suc n) \<and>
      (fst (gen_article_id L (snd (gen_article_id L n u)) u) = fst (gen_article_id L n u)
         \<longleftrightarrow> uuid4 L (Suc n) = uuid4 L n))"
  by (auto simp: gen_article_id_def dest: str_uuid_inj)

lemmas run_uuid = gen_article_id_def lib0_def uuid5_poly_def NAMESPACE_URL_def str_uuid_def
  hex32_def hex_char_def upt_rec

theorem gen_article_id_identity_witness:
  "gen_article_id lib0 0 (Some ''https://a.example/1'') =
     (''46da5291-4365-3951-bbb3-8955aade096c'', 0) \<and>
   fst (gen_article_id (lib0\<lparr>uuid4 := \<lambda>i. 7\<rparr>) 5 (Some ''https://a.example/1'')) =
     fst (gen_article_id lib0 0 (Some ''https://a.example/1'')) \<and>
   gen_article_id lib0 0 None = (''9f1c2e3a-4b5d-4c6e-8f7a-0b1c2d3e4f50'', 1) \<and>
   fst (gen_article_id lib0 (snd (gen_article_id lib0 0 None)) None) \<noteq>
     fst (gen_article_id lib0 0 None)"
proof -
  note T = gen_article_id_identity
    [of "''https://a.example/1''" "lib0\<lparr>uuid4 := \<lambda>i. 7\<rparr>" lib0 0 5 None]
  have a: "uuid5 (lib0\<lparr>uuid4 := \<lambda>i. 7\<rparr>) = uuid5 lib0" by simp
  have b: "uuid4 lib0 (Suc 0) \<noteq> uuid4 lib0 0" by (simp add: lib0_def)
  have c: "str_uuid (uuid5 lib0 NAMESPACE_URL ''https://a.example/1'') =
      ''46da5291-4365-3951-bbb3-8955aade096c''"
    by (simp add: run_uuid)
  have d: "str_uuid (uuid4 lib0 0) = ''9f1c2e3a-4b5d-4c6e-8f7a-0b1c2d3e4f50''"
    by (simp add: run_uuid)
  from T a have p1: "gen_article_id lib0 0 (Some ''https://a.example/1'') =
      (str_uuid (uuid5 lib0 NAMESPACE_URL ''https://a.example/1''), 0)"
    and p2: "fst (gen_article_id (lib0\<lparr>uuid4 := \<lambda>i. 7\<rparr>) 5 (Some ''https://a.example/1'')) =
      fst (gen_article_id lib0 0 (Some ''https://a.example/1''))"
    by simp_all
  have h: "(None :: string option) = None \<or> (None :: string option) = Some []" by simp
  from T h have p3: "gen_article_id lib0 0 None = (str_uuid (uuid4 lib0 0), Suc 0)"
    and p4: "fst (gen_article_id lib0 (snd (gen_article_id lib0 0 None)) None) =
        fst (gen_article_id lib0 0 None) \<longleftrightarrow> uuid4 lib0 (Suc 0) = uuid4 lib0 0"
    by blast+
  from p1 c have q1: "gen_article_id lib0 0 (Some ''https://a.example/1'') =
      (''46da5291-4365-3951-bbb3-8955aade096c'', 0)" by simp
  from p3 d have q3: "gen_article_id lib0 0 None = (''9f1c2e3a-4b5d-4c6e-8f7a-0b1c2d3e4f50'', 1)"
    by simp
  from p4 b have q4: "fst (gen_article_id lib0 (snd (gen_article_id lib0 0 None)) None) \<noteq>
      fst (gen_article_id lib0 0 None)" by blast
  show ?thesis by (intro conjI) (rule q1 p2 q3 q4)+
qed

subsection \<open>The normalizer\<close>

lemma is_str_fillna [simp]: "is_str (fillna_str c)"
  by (simp add: fillna_str_def)

lemma fillna_str_id: "is_str c \<Longrightarrow> fillna_str c = c"
  by (cases c) (simp_all add: fillna_str_def)

lemma s_safe_fillna [simp]: "s_safe (fillna_str c) = s_safe c"
  by (simp add: fillna_str_def)

lemma cells_fillna: "list_all is_str (cells (fillna_astype r))"
  by (simp add: cells_def fillna_astype_def)

lemma fillna_astype_id: "list_all is_str (cells r) \<Longrightarrow> fillna_astype r = r"
  by (simp add: cells_def fillna_astype_def fillna_str_id)

lemma cells_id_update: "list_all is_str (cells r) \<Longrightarrow> list_all is_str (cells (r\<lparr>article_id := Str i\<rparr>))"
  by (simp add: cells_def)

lemma backfill_length [simp]: "length (fst (backfill L n rs)) = length rs"
  by (induction rs arbitrary: n) (simp_all add: Let_def split_beta)

lemma backfill_nil_iff [simp]: "fst (backfill L n rs) = [] \<longleftrightarrow> rs = []"
  using backfill_length [of L n rs] by (metis length_0_conv)

lemma gen_article_id_not_blank: "\<not> is_blank (fst (gen_article_id L n u))"
  by (simp add: gen_article_id_def str_uuid_not_blank split: option.splits)

lemma backfill_normal:
  "\<forall>r \<in> set rs. list_all is_str (cells r) \<Longrightarrow> \<forall>r \<in> set (fst (backfill L n rs)). normal_row r"
proof (induction rs arbitrary: n)
  case Nil
  then show ?case by simp
next
  case (Cons r rs)
  then show ?case
    using gen_article_id_not_blank [of L n "Some (s_safe (url r))"]
    by (auto simp: Let_def split_beta normal_row_def cells_id_update str_uuid_not_blank)
qed

lemma backfill_fixed:
  "\<forall>r \<in> set rs. \<not> is_blank (s_safe (article_id r)) \<Longrightarrow> backfill L n rs = (rs, n)"
  by (induction rs arbitrary: n) (simp_all add: Let_def split_beta)

lemma normalize_ids_length [simp]: "length (fst (normalize_ids L n df)) = length df"
  by (simp add: normalize_ids_def)

lemma normalize_ids_normal: "\<forall>r \<in> set (fst (normalize_ids L n df)). normal_row r"
  using backfill_normal [of "map fillna_astype df" L n]
  by (simp add: normalize_ids_def cells_fillna)

lemma normalize_ids_fixed: "\<forall>r \<in> set df. normal_row r \<Longrightarrow> normalize_ids L n df = (df, n)"
proof -
  assume a: "\<forall>r \<in> set df. normal_row r"
  then have "map fillna_astype df = df"
    by (simp add: map_idI fillna_astype_id normal_row_def)
  with a show ?thesis
    by (simp add: normalize_ids_def backfill_fixed normal_row_def)
qed

lemma normalize_ids_nil_iff [simp]: "fst (normalize_ids L n df) = [] \<longleftrightarrow> df = []"
  by (simp add: normalize_ids_def)

lemma normalize_ids_nil [simp]: "normalize_ids L n [] = ([], n)"
  by (simp add: normalize_ids_def)

subsection \<open>Dropping duplicates\<close>

lemma drop_dups_subset: "set (drop_dups seen rs) \<subseteq> set rs"
  by (induction rs arbitrary: seen) auto

lemma drop_dups_ids: "set (ids (drop_dups seen rs)) = set (ids rs) - set seen"
  by (induction rs arbitrary: seen) (auto simp: ids_def)

lemma drop_dups_distinct: "distinct (ids (drop_dups seen rs))"
proof (induction rs arbitrary: seen)
  case Nil
  then show ?case by (simp add: ids_def)
next
  case (Cons r rs)
  have "article_id r \<notin> set (ids (drop_dups (article_id r # seen) rs))"
    by (simp add: drop_dups_ids)
  with Cons show ?case by (simp add: ids_def)
qed

lemma drop_dups_fixed:
  "distinct (ids rs) \<Longrightarrow> set (ids rs) \<inter> set seen = {} \<Longrightarrow> drop_dups seen rs = rs"
  by (induction rs arbitrary: seen) (auto simp: ids_def)

lemma drop_dups_nil_iff: "drop_dups [] rs = [] \<longleftrightarrow> rs = []"
  by (cases rs) simp_all

lemma drop_dups_find:
  "find (\<lambda>r. article_id r = k) (drop_dups seen rs) =
     (if k \<in> set seen then None else find (\<lambda>r. article_id r = k) rs)"
  by (induction rs arbitrary: seen) auto

subsection \<open>Sorting by the key\<close>

lemma sort_values_desc_set [simp]: "set (sort_values_desc ps) = set ps"
  by (auto simp: sort_values_desc_def)

lemma sort_values_desc_length [simp]: "length (sort_values_desc ps) = length ps"
  using sum_length_filter_compl [of "\<lambda>p. snd p = None" ps]
  by (simp add: sort_values_desc_def del: not_None_eq)

lemma timed_untimed_disjoint:
  "set (rev (sort_key (\<lambda>p. the (snd p)) (rev (filter (\<lambda>p. snd p \<noteq> None) ps)))) \<inter>
     set (filter (\<lambda>p. snd p = None) ps) = {}"
  by (simp only: set_rev set_sort set_filter) auto

lemma sort_values_desc_distinct_rows: "distinct ps \<Longrightarrow> distinct (sort_values_desc ps)"
proof -
  assume "distinct ps"
  then have "distinct (rev (sort_key (\<lambda>p. the (snd p)) (rev (filter (\<lambda>p. snd p \<noteq> None) ps))))"
    by simp
  then show ?thesis
    unfolding sort_values_desc_def distinct_append
    using timed_untimed_disjoint [of ps] \<open>distinct ps\<close>
    by (simp only: distinct_filter simp_thms)
qed

lemma sort_values_desc_distinct:
  "distinct (map f ps) \<Longrightarrow> distinct (map f (sort_values_desc ps))"
  unfolding distinct_map
  using sort_values_desc_distinct_rows [of ps]
  by (simp only: sort_values_desc_set simp_thms)

lemma sorted_desc_part:
  assumes "\<forall>p \<in> set xs. snd p \<noteq> None"
  shows "sorted_wrt key_ge (map snd (rev (sort_key (\<lambda>p. the (snd p)) xs)))"
proof -
  let ?S = "sort_key (\<lambda>p. the (snd p)) xs"
  have "sorted (map (\<lambda>p. the (snd p)) ?S)" by (rule sorted_sort_key)
  then have "sorted_wrt (\<lambda>x y. the (snd x) \<le> the (snd y)) ?S"
    by (simp add: sorted_wrt_map)
  then have "sorted_wrt (\<lambda>x y. key_ge (snd y) (snd x)) ?S"
  proof (rule sorted_wrt_mono_rel [rotated])
    fix x y assume "x \<in> set ?S" "y \<in> set ?S" "the (snd x) \<le> the (snd y)"
    with assms show "key_ge (snd y) (snd x)" by (cases "snd x"; cases "snd y") auto
  qed
  then show ?thesis by (simp add: sorted_wrt_map sorted_wrt_rev rev_map [symmetric])
qed

lemma sort_values_desc_sorted: "sorted_wrt key_ge (map snd (sort_values_desc ps))"
proof -
  have a: "sorted_wrt key_ge (map snd (rev (sort_key (\<lambda>p. the (snd p))
      (rev (filter (\<lambda>p. snd p \<noteq> None) ps)))))"
    by (rule sorted_desc_part) simp
  have b: "sorted_wrt key_ge (map snd (filter (\<lambda>p. snd p = None) ps))"
    by (induction ps) (auto simp: sorted_wrt_map)
  show ?thesis
    unfolding sort_values_desc_def map_append sorted_wrt_append
    using a b by auto
qed

lemma filter_none_timed:
  "filter (\<lambda>p. snd p = None)
     (sort_key (\<lambda>p. the (snd p)) (rev (filter (\<lambda>p. snd p \<noteq> None) ps))) = []"
  unfolding filter_empty_conv by (simp only: set_sort set_rev set_filter) auto

lemma filter_some_untimed:
  "filter (\<lambda>p. snd p = Some t) (filter (\<lambda>p. snd p = None) ps) = []"
  unfolding filter_empty_conv by (simp only: set_filter) auto

lemma filter_some_timed:
  "filter (\<lambda>p. snd p = Some t) (filter (\<lambda>p. snd p \<noteq> None) ps) =
     filter (\<lambda>p. snd p = Some t) ps"
  unfolding filter_filter by (rule filter_cong [OF refl]) auto

lemma sort_values_desc_stable:
  "filter (\<lambda>p. snd p = k) (sort_values_desc ps) = filter (\<lambda>p. snd p = k) ps"
proof (cases k)
  case None
  have "filter (\<lambda>p. snd p = None)
      (rev (sort_key (\<lambda>p. the (snd p)) (rev (filter (\<lambda>p. snd p \<noteq> None) ps)))) = []"
    unfolding rev_filter [symmetric] filter_none_timed by (rule rev.simps(1))
  then show ?thesis
    unfolding None sort_values_desc_def filter_append
    by (simp only: append_Nil filter_filter conj_absorb)
next
  case (Some t)
  let ?T = "filter (\<lambda>p. snd p \<noteq> None) ps"
  let ?kf = "\<lambda>p. the (snd p)"
  let ?Q = "\<lambda>p. snd p = Some t"
  have mem: "\<And>p. p \<in> set (rev ?T) \<Longrightarrow> snd p \<noteq> None"
    by (simp only: set_rev set_filter) auto
  have "filter ?Q (sort_key ?kf (rev ?T)) = filter (\<lambda>p. ?kf p = t) (sort_key ?kf (rev ?T))"
  proof (rule filter_cong [OF refl])
    fix p assume "p \<in> set (sort_key ?kf (rev ?T))"
    then have "p \<in> set (rev ?T)" by (simp only: set_sort)
    then have "snd p \<noteq> None" by (rule mem)
    then show "?Q p = (?kf p = t)" by (cases "snd p") auto
  qed
  also have "\<dots> = filter (\<lambda>p. ?kf p = t) (rev ?T)" by (rule sort_key_stable)
  also have "\<dots> = filter ?Q (rev ?T)"
  proof (rule filter_cong [OF refl])
    fix p assume "p \<in> set (rev ?T)"
    then have "snd p \<noteq> None" by (rule mem)
    then show "(?kf p = t) = ?Q p" by (cases "snd p") auto
  qed
  finally have a: "filter ?Q (sort_key ?kf (rev ?T)) = filter ?Q (rev ?T)" .
  have "filter ?Q (rev (sort_key ?kf (rev ?T))) = rev (filter ?Q (sort_key ?kf (rev ?T)))"
    by (simp only: rev_filter)
  also have "\<dots> = rev (filter ?Q (rev ?T))" by (simp only: a)
  also have "\<dots> = filter ?Q ?T" by (simp only: rev_filter rev_rev_ident)
  also have "\<dots> = filter ?Q ps" by (rule filter_some_timed)
  finally have b: "filter ?Q (rev (sort_key ?kf (rev ?T))) = filter ?Q ps" .
  show ?thesis
    unfolding Some sort_values_desc_def filter_append b filter_some_untimed
    by (rule append_Nil2)
qed

lemma key_ge_None_all:
  "\<forall>q \<in> set ps. key_ge None (snd q) \<Longrightarrow> \<forall>q \<in> set ps. snd q = None"
proof
  fix q assume a: "\<forall>q \<in> set ps. key_ge None (snd q)" and q: "q \<in> set ps"
  then have "key_ge None (snd q)" by blast
  then show "snd q = None" by (cases "snd q") simp_all
qed

lemma sorted_split:
  "sorted_wrt key_ge (map snd ps) \<Longrightarrow>
     ps = filter (\<lambda>p. snd p \<noteq> None) ps @ filter (\<lambda>p. snd p = None) ps"
proof (induction ps)
  case Nil
  then show ?case by simp
next
  case (Cons p ps)
  show ?case
  proof (cases "snd p")
    case None
    with Cons.prems have "\<forall>q \<in> set ps. key_ge None (snd q)"
      by (simp add: sorted_wrt_map)
    then have n: "\<forall>q \<in> set ps. snd q = None" by (rule key_ge_None_all)
    then have "filter (\<lambda>p. snd p \<noteq> None) ps = []"
      unfolding filter_empty_conv by (simp del: not_None_eq)
    moreover from n have "filter (\<lambda>p. snd p = None) ps = ps"
      unfolding filter_id_conv by (simp del: not_None_eq)
    ultimately show ?thesis using None by (simp del: not_None_eq)
  next
    case (Some t)
    from Cons.prems have "sorted_wrt key_ge (map snd ps)" by simp
    then have "ps = filter (\<lambda>p. snd p \<noteq> None) ps @ filter (\<lambda>p. snd p = None) ps"
      by (rule Cons.IH)
    then show ?thesis using Some by (simp del: not_None_eq)
  qed
qed

lemma sort_values_desc_fixed:
  assumes "sorted_wrt key_ge (map snd ps)"
  shows "sort_values_desc ps = ps"
proof -
  let ?T = "filter (\<lambda>p. snd p \<noteq> None) ps"
  let ?kf = "\<lambda>p. the (snd p)"
  from assms have "sorted_wrt (\<lambda>x y. key_ge (snd x) (snd y)) ps" by (simp add: sorted_wrt_map)
  then have "sorted_wrt (\<lambda>x y. key_ge (snd x) (snd y)) ?T" by (rule sorted_wrt_filter)
  then have "sorted_wrt (\<lambda>x y. ?kf y \<le> ?kf x) ?T"
  proof (rule sorted_wrt_mono_rel [rotated])
    fix x y assume "x \<in> set ?T" "y \<in> set ?T" "key_ge (snd x) (snd y)"
    then show "?kf y \<le> ?kf x" by (cases "snd x"; cases "snd y") auto
  qed
  then have "sorted (map ?kf (rev ?T))"
    by (simp add: sorted_wrt_map sorted_wrt_rev rev_map [symmetric])
  then have "sort_key ?kf (rev ?T) = rev ?T" by (rule sort_key_id_if_sorted)
  then have "sort_values_desc ps = ?T @ filter (\<lambda>p. snd p = None) ps"
    by (simp add: sort_values_desc_def)
  with sorted_split [OF assms] show ?thesis by simp
qed

subsection \<open>The deduplicator\<close>

lemma drop_duplicates_nil_iff [simp]: "drop_duplicates df = [] \<longleftrightarrow> df = []"
  by (simp add: drop_duplicates_def drop_dups_nil_iff)

lemma length_to_datetime [simp]: "length (to_datetime L col) = length col"
  by (simp add: to_datetime_def)

lemma keyed_rows_fst:
  "map fst (keyed_rows L n df) = drop_duplicates (fst (normalize_ids L n df))"
  by (simp add: keyed_rows_def Let_def drop_duplicates_def)

lemma keyed_rows_snd:
  "map snd (keyed_rows L n df) =
     to_datetime L (map published_time_utc (map fst (keyed_rows L n df)))"
  by (simp add: keyed_rows_def Let_def)

lemma keyed_rows_nil_iff [simp]: "keyed_rows L n df = [] \<longleftrightarrow> df = []"
  using keyed_rows_fst [of L n df] by (metis Nil_is_map_conv drop_duplicates_nil_iff normalize_ids_nil_iff)

lemma keyed_rows_normal: "p \<in> set (keyed_rows L n df) \<Longrightarrow> normal_row (fst p)"
proof -
  assume "p \<in> set (keyed_rows L n df)"
  then have "fst p \<in> set (map fst (keyed_rows L n df))" by simp
  then have "fst p \<in> set (fst (normalize_ids L n df))"
    unfolding keyed_rows_fst drop_duplicates_def using drop_dups_subset by blast
  then show ?thesis using normalize_ids_normal by blast
qed

lemma keyed_rows_ids:
  "set (ids (map fst (keyed_rows L n df))) = set (ids (fst (normalize_ids L n df)))"
  by (simp add: keyed_rows_fst drop_duplicates_def drop_dups_ids)

lemma keyed_rows_distinct: "distinct (ids (map fst (keyed_rows L n df)))"
  by (simp add: keyed_rows_fst drop_duplicates_def drop_dups_distinct)

lemma Str_s_safe: "is_str c \<Longrightarrow> Str (s_safe c) = c"
  by (cases c) simp_all

lemma stamped_eq:
  "normal_row r \<Longrightarrow> fillna_astype (r\<lparr>published_time_utc := strftime_cell k\<rparr>) = stamped (r, k)"
  by (cases r; cases k)
    (simp_all add: normal_row_def cells_def fillna_astype_def stamped_def
      strftime_cell_def key_str_def fillna_str_def Str_s_safe)

lemma stamped_id [simp]: "article_id (stamped p) = article_id (fst p)"
  by (simp add: stamped_def)

lemma stamped_normal: "normal_row (fst p) \<Longrightarrow> normal_row (stamped p)"
  by (simp add: normal_row_def stamped_def cells_def)

lemma sorted_rows_set [simp]: "set (sorted_rows L n df) = set (keyed_rows L n df)"
  by (simp add: sorted_rows_def)

lemma sorted_rows_nil_iff [simp]: "sorted_rows L n df = [] \<longleftrightarrow> df = []"
  using sorted_rows_set [of L n df] keyed_rows_nil_iff [of L n df]
  by (metis set_empty)

lemma dedupe_df_eq:
  "dedupe_df L n df = (map stamped (sorted_rows L n df), snd (normalize_ids L n df))"
proof -
  let ?S = "sorted_rows L n df"
  let ?df3 = "map (\<lambda>(r, k). r\<lparr>published_time_utc := strftime_cell k\<rparr>) ?S"
  have n: "\<forall>p \<in> set ?S. normal_row (fst p)" by (simp add: keyed_rows_normal)
  have a: "map fillna_astype ?df3 = map stamped ?S"
    using n by (auto simp: stamped_eq)
  have b: "\<forall>r \<in> set (map stamped ?S). \<not> is_blank (s_safe (article_id r))"
    using n by (auto simp: normal_row_def)
  have "normalize_ids L m ?df3 = (map stamped ?S, m)" for m
  proof (cases "?S = []")
    case True
    show ?thesis unfolding True by simp
  next
    case False
    then have "normalize_ids L m ?df3 = backfill L m (map fillna_astype ?df3)"
      by (simp add: normalize_ids_def)
    also have "\<dots> = (map stamped ?S, m)" unfolding a using b by (rule backfill_fixed)
    finally show ?thesis .
  qed
  then show ?thesis by (simp add: dedupe_df_def Let_def)
qed

lemma dedupe_df_nil_iff [simp]: "fst (dedupe_df L n df) = [] \<longleftrightarrow> df = []"
  by (simp add: dedupe_df_eq)

lemma dedupe_df_normal: "r \<in> set (fst (dedupe_df L n df)) \<Longrightarrow> normal_row r"
proof -
  assume "r \<in> set (fst (dedupe_df L n df))"
  then obtain p where p: "p \<in> set (keyed_rows L n df)" and r: "r = stamped p"
    by (auto simp: dedupe_df_eq)
  from p have "normal_row (fst p)" by (rule keyed_rows_normal)
  then show ?thesis unfolding r by (rule stamped_normal)
qed

lemma ids_stamped: "ids (map stamped ps) = ids (map fst ps)"
  by (simp add: ids_def)

lemma dedupe_df_ids:
  "set (ids (fst (dedupe_df L n df))) = set (ids (fst (normalize_ids L n df)))"
proof -
  have "set (ids (map fst (sorted_rows L n df))) = set (ids (map fst (keyed_rows L n df)))"
    by (simp add: ids_def image_image)
  then show ?thesis by (simp add: dedupe_df_eq ids_stamped keyed_rows_ids)
qed

lemma dedupe_df_distinct: "distinct (ids (fst (dedupe_df L n df)))"
proof -
  have "distinct (map (\<lambda>p. article_id (fst p)) (keyed_rows L n df))"
    using keyed_rows_distinct [of L n df] by (simp add: ids_def comp_def)
  then have "distinct (map (\<lambda>p. article_id (fst p)) (sorted_rows L n df))"
    unfolding sorted_rows_def by (rule sort_values_desc_distinct)
  then show ?thesis by (simp add: dedupe_df_eq ids_def comp_def)
qed

lemmas run_dedupe = dedupe_df_def sorted_rows_def keyed_rows_def normalize_ids_def Let_def
  fillna_astype_def fillna_str_def article_def out_def is_blank_def is_space_def
  drop_duplicates_def to_datetime_def lib0_def to_datetime_canonical_def digit_val_def
  sort_values_desc_def strftime_cell_def dec.simps zpad_def digit_char_def

subsection \<open>Order of the deduplicated frame\<close>

text \<open>
  C3. The frame returned by \<open>dedupe_df\<close> consists of the rows of \<open>sorted_rows\<close>, each carrying the
  string of its sort key. These are the rows of \<open>keyed_rows\<close> (the normalized input without its
  repeated identifiers, in input order, each row paired with the parsed value of its
  \<open>published_time_utc\<close>) rearranged so that the keys never increase along the frame and every
  row without a key comes after every row with one; and for each key, present or missing, the
  rows having that key follow each other in the order they have in the input.
\<close>

theorem dedupe_df_sorted_stable:
  "fst (dedupe_df L n df) = map stamped (sorted_rows L n df) \<and>
   map fst (keyed_rows L n df) = drop_duplicates (fst (normalize_ids L n df)) \<and>
   map snd (keyed_rows L n df) =
     to_datetime L (map published_time_utc (map fst (keyed_rows L n df))) \<and>
   set (sorted_rows L n df) = set (keyed_rows L n df) \<and>
   length (sorted_rows L n df) = length (keyed_rows L n df) \<and>
   sorted_wrt key_ge (map snd (sorted_rows L n df)) \<and>
   (\<forall>k. filter (\<lambda>p. snd p = k) (sorted_rows L n df) =
        filter (\<lambda>p. snd p = k) (keyed_rows L n df))"
proof -
  have "fst (dedupe_df L n df) = map stamped (sorted_rows L n df)"
    by (simp add: dedupe_df_eq)
  moreover have "sorted_wrt key_ge (map snd (sorted_rows L n df))"
    unfolding sorted_rows_def by (rule sort_values_desc_sorted)
  moreover have "\<forall>k. filter (\<lambda>p. snd p = k) (sorted_rows L n df) =
      filter (\<lambda>p. snd p = k) (keyed_rows L n df)"
    unfolding sorted_rows_def by (rule allI) (rule sort_values_desc_stable)
  moreover have "length (sorted_rows L n df) = length (keyed_rows L n df)"
    unfolding sorted_rows_def by (rule sort_values_desc_length)
  moreover note keyed_rows_fst [of L n df] keyed_rows_snd [of L n df] sorted_rows_set [of L n df]
  ultimately show ?thesis by (intro conjI)
qed

theorem dedupe_df_sorted_stable_witness:
  "fst (dedupe_df lib0 0
     [article ''a'' ''A'' ''2024-01-01T10:00:00Z'', article ''b'' ''B'' ''yesterday'',
      article ''c'' ''C'' ''2024-03-01T10:00:00Z'', article ''a'' ''A2'' ''2024-05-01T10:00:00Z'',
      article ''d'' ''D'' ''2024-01-01T10:00:00Z'', article ''e'' ''E'' []]) =
   [out ''c'' ''C'' ''2024-03-01T10:00:00Z'', out ''a'' ''A'' ''2024-01-01T10:00:00Z'',
    out ''d'' ''D'' ''2024-01-01T10:00:00Z'', out ''b'' ''B'' [], out ''e'' ''E'' []] \<and>
   sorted_wrt key_ge
     ([Some (2024, 3, 1, 10, 0, 0, 0), Some (2024, 1, 1, 10, 0, 0, 0),
       Some (2024, 1, 1, 10, 0, 0, 0), None, None] :: timestamp option list)"
proof -
  let ?X = "[article ''a'' ''A'' ''2024-01-01T10:00:00Z'', article ''b'' ''B'' ''yesterday'',
      article ''c'' ''C'' ''2024-03-01T10:00:00Z'', article ''a'' ''A2'' ''2024-05-01T10:00:00Z'',
      article ''d'' ''D'' ''2024-01-01T10:00:00Z'', article ''e'' ''E'' []]"
  note T = dedupe_df_sorted_stable [of lib0 0 ?X]
  have s: "map snd (sorted_rows lib0 0 ?X) =
     [Some (2024, 3, 1, 10, 0, 0, 0), Some (2024, 1, 1, 10, 0, 0, 0),
      Some (2024, 1, 1, 10, 0, 0, 0), None, None]"
    by (simp add: run_dedupe)
  have m: "map stamped (sorted_rows lib0 0 ?X) =
     [out ''c'' ''C'' ''2024-03-01T10:00:00Z'', out ''a'' ''A'' ''2024-01-01T10:00:00Z'',
      out ''d'' ''D'' ''2024-01-01T10:00:00Z'', out ''b'' ''B'' [], out ''e'' ''E'' []]"
    by (simp add: run_dedupe stamped_def key_str_def)
  from T have "fst (dedupe_df lib0 0 ?X) = map stamped (sorted_rows lib0 0 ?X)" by blast
  moreover from T have "sorted_wrt key_ge (map snd (sorted_rows lib0 0 ?X))" by blast
  ultimately show ?thesis unfolding s m by (rule conjI)
qed

subsection \<open>The merge\<close>

lemma dedupe_df_nil [simp]: "dedupe_df L n [] = ([], n)"
  by (simp add: dedupe_df_eq)

lemma ids_filter: "set (ids (filter (\<lambda>r. article_id r \<notin> E) rs)) = set (ids rs) - E"
  by (auto simp: ids_def)

text \<open>
  C1. With \<open>fresh'\<close> the deduplicated \<open>freshly\<close> and \<open>existing'\<close> the deduplicated \<open>existing\<close>, as
  \<open>merge_new\<close> computes them one after the other, the set \<open>new_ids\<close> it returns is exactly the
  set of the identifiers of \<open>fresh'\<close> without those of \<open>existing'\<close>. When \<open>existing\<close> is the empty
  frame, the result is \<open>fresh'\<close> in its entirety and \<open>new_ids\<close> is the set of all its identifiers.
\<close>

theorem merge_new_new_ids:
  "snd (fst (merge_new L n existing freshly)) =
     set (ids (fst (dedupe_df L n freshly))) -
     set (ids (fst (dedupe_df L (snd (dedupe_df L n freshly)) existing))) \<and>
   merge_new L n [] freshly =
     ((fst (dedupe_df L n freshly), set (ids (fst (dedupe_df L n freshly)))),
      snd (dedupe_df L n freshly))"
proof -
  obtain f n1 where f: "dedupe_df L n freshly = (f, n1)" by (cases "dedupe_df L n freshly")
  obtain e n2 where e: "dedupe_df L n1 existing = (e, n2)" by (cases "dedupe_df L n1 existing")
  obtain t n3 where t: "dedupe_df L n2 (e @ filter (\<lambda>r. article_id r \<notin> set (ids e)) f) = (t, n3)"
    by (cases "dedupe_df L n2 (e @ filter (\<lambda>r. article_id r \<notin> set (ids e)) f)")
  have "snd (fst (merge_new L n existing freshly)) = set (ids f) - set (ids e)"
    by (cases "e = []") (simp_all add: merge_new_def f e t ids_filter, simp add: ids_def)
  moreover have "merge_new L n [] freshly = ((f, set (ids f)), n1)"
    by (simp add: merge_new_def f)
  ultimately show ?thesis by (simp add: f e)
qed

theorem merge_new_new_ids_witness:
  "merge_new lib0 0
     [article ''a'' ''Old'' ''2024-01-01T10:00:00Z'', article ''b'' ''B'' ''2024-02-01T10:00:00Z'']
     [article ''a'' ''New'' ''2024-01-01T10:00:00Z'', article ''c'' ''C'' ''2024-03-01T10:00:00Z'',
      article ''c'' ''C2'' ''2024-03-02T10:00:00Z''] =
   (([out ''c'' ''C'' ''2024-03-01T10:00:00Z'', out ''b'' ''B'' ''2024-02-01T10:00:00Z'',
      out ''a'' ''Old'' ''2024-01-01T10:00:00Z''], {Str ''c''}), 0) \<and>
   {Str ''c''} = {Str ''a'', Str ''c''} - {Str ''b'', Str ''a''}"
proof -
  let ?E = "[article ''a'' ''Old'' ''2024-01-01T10:00:00Z'', article ''b'' ''B'' ''2024-02-01T10:00:00Z'']"
  let ?F = "[article ''a'' ''New'' ''2024-01-01T10:00:00Z'', article ''c'' ''C'' ''2024-03-01T10:00:00Z'',
      article ''c'' ''C2'' ''2024-03-02T10:00:00Z'']"
  have f: "dedupe_df lib0 0 ?F =
      ([out ''c'' ''C'' ''2024-03-01T10:00:00Z'', out ''a'' ''New'' ''2024-01-01T10:00:00Z''], 0)"
    by (simp add: run_dedupe)
  have e: "dedupe_df lib0 0 ?E =
      ([out ''b'' ''B'' ''2024-02-01T10:00:00Z'', out ''a'' ''Old'' ''2024-01-01T10:00:00Z''], 0)"
    by (simp add: run_dedupe)
  have t: "dedupe_df lib0 0
      [out ''b'' ''B'' ''2024-02-01T10:00:00Z'', out ''a'' ''Old'' ''2024-01-01T10:00:00Z'',
       out ''c'' ''C'' ''2024-03-01T10:00:00Z''] =
      ([out ''c'' ''C'' ''2024-03-01T10:00:00Z'', out ''b'' ''B'' ''2024-02-01T10:00:00Z'',
        out ''a'' ''Old'' ''2024-01-01T10:00:00Z''], 0)"
    by (simp add: run_dedupe)
  have m: "merge_new lib0 0 ?E ?F =
     (([out ''c'' ''C'' ''2024-03-01T10:00:00Z'', out ''b'' ''B'' ''2024-02-01T10:00:00Z'',
      out ''a'' ''Old'' ''2024-01-01T10:00:00Z''], {Str ''c''}), 0)"
    by (simp add: merge_new_def f e ids_def out_def t [unfolded out_def])
  from merge_new_new_ids [of lib0 0 ?E ?F]
  have "snd (fst (merge_new lib0 0 ?E ?F)) =
     set (ids (fst (dedupe_df lib0 0 ?F))) -
     set (ids (fst (dedupe_df lib0 (snd (dedupe_df lib0 0 ?F)) ?E)))" by (rule conjunct1)
  then have "{Str ''c''} = {Str ''a'', Str ''c''} - {Str ''b'', Str ''a''}"
    unfolding m f e snd_conv fst_conv by (simp add: ids_def out_def insert_commute)
  with m show ?thesis by (rule conjI)
qed

end
